theory Spec2Isabelle
  imports Complex_Main "HOL-Library.Log_Nat"
begin

section \<open>VoxMatrix icon generator\<close>

text \<open>
  A shallow embedding of \<^verbatim>\<open>generate_icon.py\<close>: the icon renderer
  \<^verbatim>\<open>create_voxmatrix_icon\<close> and the batch driver \<^verbatim>\<open>main\<close>.

  The script computes with Python integers (unbounded, here \<^typ>\<open>int\<close>) and with
  Python floats (IEEE 754 binary64, here rationals rounded to 53 significant bits), and it
  draws through the Pillow library. Pillow is not part of the repository. Its documented
  effects (\<^verbatim>\<open>Image.new\<close>, \<^verbatim>\<open>putpixel\<close>, drawing on an image of
  the same mode, \<^verbatim>\<open>putalpha\<close>) are modelled below; which pixels a line or a
  rounded rectangle covers is the business of Pillow's rasteriser and is a parameter of the
  model, so that every general theorem holds for every rasteriser.
\<close>

subsection \<open>Python floats\<close>

text \<open>
  A binary64 value is a rational \<open>m * 2 ^ e\<close> with \<open>\<bar>m\<bar> < 2 ^ 53\<close>. Every
  float operation of the script is the exact operation followed by rounding to the nearest
  such value, ties to even (\<open>fl\<close>). The exponent range is not modelled: an overflow needs
  \<open>size\<close> beyond \<open>2 ^ 1023\<close> and no quotient of the script is small enough to be
  subnormal.
\<close>

definition expo :: "rat \<Rightarrow> int" where
  \<comment> \<open>the binary exponent: \<open>2 ^ expo x \<le> \<bar>x\<bar> < 2 ^ (expo x + 1)\<close> for \<open>x \<noteq> 0\<close>\<close>
  "expo x = (let (p, q) = quotient_of \<bar>x\<bar>;
                 d = bitlen p - bitlen q
             in if 2 powi d \<le> \<bar>x\<bar> then d else d - 1)"

definition rne :: "rat \<Rightarrow> int" where
  \<comment> \<open>round to the nearest integer, ties to even\<close>
  "rne y = (let f = \<lfloor>y\<rfloor>; d = y - of_int f
            in if d < 1 / 2 then f else if 1 / 2 < d then f + 1
               else if even f then f else f + 1)"

definition fl :: "rat \<Rightarrow> rat" where
  \<comment> \<open>round to 53 significant bits\<close>
  "fl x = (if x = 0 then 0
           else let s = 2 powi (expo x - 52) in of_int (rne (x / s)) * s)"

function isqrt :: "int \<Rightarrow> int" where
  "isqrt n = (if n < 4 then (if n \<le> 0 then 0 else 1)
              else let r = 2 * isqrt (n div 4) in if (r + 1) * (r + 1) \<le> n then r + 1 else r)"
  by pat_completeness auto
termination
  by (relation "measure nat") auto

declare isqrt.simps [simp del]

definition fsqrt :: "rat \<Rightarrow> rat" where
  \<comment> \<open>the correctly rounded square root of a float (\<^verbatim>\<open>math.sqrt\<close>); the script
      only takes the root of a sum of two squares, so the \<^verbatim>\<open>ValueError\<close> of a
      negative argument cannot arise\<close>
  "fsqrt x = (if x \<le> 0 then 0
     else let s = 2 powi (expo x div 2 - 52);
              t = x / (s * s);
              k = isqrt \<lfloor>t\<rfloor>;
              h = of_int (k * k + k) + 1 / 4
          in of_int (if t < h then k else if h < t then k + 1
                     else if even k then k else k + 1) * s)"

datatype error = ZeroDivisionError | ValueError | IndexError

definition float_of_int :: "int \<Rightarrow> rat" where
  \<comment> \<open>the conversion Python applies to an \<^verbatim>\<open>int\<close> operand of a float operation\<close>
  "float_of_int n = fl (of_int n)"

definition float_lit :: "rat \<Rightarrow> rat" where
  \<comment> \<open>a decimal literal such as \<^verbatim>\<open>0.1\<close> denotes the nearest float\<close>
  "float_lit r = fl r"

definition fadd :: "rat \<Rightarrow> rat \<Rightarrow> rat" where
  "fadd a b = fl (a + b)"

definition fsub :: "rat \<Rightarrow> rat \<Rightarrow> rat" where
  "fsub a b = fl (a - b)"

definition fmul :: "rat \<Rightarrow> rat \<Rightarrow> rat" where
  "fmul a b = fl (a * b)"

definition fdiv :: "rat \<Rightarrow> rat \<Rightarrow> error + rat" where
  "fdiv a b = (if b = 0 then Inl ZeroDivisionError else Inr (fl (a / b)))"

definition py_int :: "rat \<Rightarrow> int" where
  \<comment> \<open>\<^verbatim>\<open>int(x)\<close> truncates towards zero\<close>
  "py_int x = (if 0 \<le> x then \<lfloor>x\<rfloor> else \<lceil>x\<rceil>)"

definition py_round :: "rat \<Rightarrow> int" where
  \<comment> \<open>\<^verbatim>\<open>round(x)\<close>, which the script never calls: nearest integer, ties to even\<close>
  "py_round x = rne x"

subsection \<open>Images\<close>

type_synonym point = "int \<times> int"

type_synonym rgba = "int \<times> int \<times> int \<times> int"

record 'p image =
  width :: int
  height :: int
  pix :: "point \<Rightarrow> 'p"

definition alpha :: "rgba \<Rightarrow> int" where
  "alpha c = (case c of (r, g, b, a) \<Rightarrow> a)"

definition rgb :: "rgba \<Rightarrow> int \<times> int \<times> int" where
  "rgb c = (case c of (r, g, b, a) \<Rightarrow> (r, g, b))"

definition inside :: "'p image \<Rightarrow> point \<Rightarrow> bool" where
  "inside img p \<longleftrightarrow> 0 \<le> fst p \<and> fst p < width img \<and> 0 \<le> snd p \<and> snd p < height img"

definition Image_new :: "int \<times> int \<Rightarrow> 'p \<Rightarrow> error + 'p image" where
  \<comment> \<open>\<^verbatim>\<open>Image.new(mode, size, color)\<close>; a negative edge raises \<^verbatim>\<open>ValueError\<close>\<close>
  "Image_new dims c =
     (if fst dims < 0 \<or> snd dims < 0 then Inl ValueError
      else Inr \<lparr>width = fst dims, height = snd dims, pix = (\<lambda>_. c)\<rparr>)"

definition putpixel :: "'p image \<Rightarrow> point \<Rightarrow> 'p \<Rightarrow> error + 'p image" where
  \<comment> \<open>the script only writes at coordinates taken from \<^verbatim>\<open>range(size)\<close>\<close>
  "putpixel img p c =
     (if inside img p then Inr (img\<lparr>pix := (pix img)(p := c)\<rparr>) else Inl IndexError)"

record raster =
  line_px :: "point \<Rightarrow> point \<Rightarrow> int \<Rightarrow> point \<Rightarrow> bool"
  rounded_rectangle_px :: "int \<times> int \<times> int \<times> int \<Rightarrow> int \<Rightarrow> point \<Rightarrow> bool"

definition draw_line :: "raster \<Rightarrow> 'p image \<Rightarrow> point \<Rightarrow> point \<Rightarrow> 'p \<Rightarrow> int \<Rightarrow> 'p image" where
  \<comment> \<open>\<^verbatim>\<open>draw.line([a, b], fill=fill, width=w)\<close> on an image of the drawing
      context's own mode: every covered pixel inside the image is replaced by the fill
      colour, alpha included; nothing is blended\<close>
  "draw_line R img a b fill w =
     img\<lparr>pix := (\<lambda>p. if inside img p \<and> line_px R a b w p then fill else pix img p)\<rparr>"

definition draw_rounded_rectangle ::
  "raster \<Rightarrow> 'p image \<Rightarrow> int \<times> int \<times> int \<times> int \<Rightarrow> int \<Rightarrow> 'p \<Rightarrow> 'p image" where
  \<comment> \<open>\<^verbatim>\<open>draw.rounded_rectangle(box, radius=r, fill=fill)\<close>\<close>
  "draw_rounded_rectangle R img box r fill =
     img\<lparr>pix := (\<lambda>p. if inside img p \<and> rounded_rectangle_px R box r p then fill
                    else pix img p)\<rparr>"

definition putalpha :: "rgba image \<Rightarrow> int image \<Rightarrow> error + rgba image" where
  \<comment> \<open>\<^verbatim>\<open>img.putalpha(mask)\<close> replaces the alpha band by the mask; images of
      different sizes raise \<^verbatim>\<open>ValueError\<close>\<close>
  "putalpha img msk =
     (if width msk \<noteq> width img \<or> height msk \<noteq> height img then Inl ValueError
      else Inr (img\<lparr>pix := (\<lambda>p. case pix img p of (r, g, b, a) \<Rightarrow> (r, g, b, pix msk p))\<rparr>))"

subsection \<open>Control flow\<close>

definition bindE :: "error + 'a \<Rightarrow> ('a \<Rightarrow> error + 'b) \<Rightarrow> error + 'b" where
  "bindE m f = (case m of Inl e \<Rightarrow> Inl e | Inr v \<Rightarrow> f v)"

primrec foldE :: "('a \<Rightarrow> 's \<Rightarrow> error + 's) \<Rightarrow> 'a list \<Rightarrow> 's \<Rightarrow> error + 's" where
  "foldE f [] s = Inr s"
| "foldE f (x # xs) s = (case f x s of Inl e \<Rightarrow> Inl e | Inr s' \<Rightarrow> foldE f xs s')"

definition range1 :: "int \<Rightarrow> int list" where
  \<comment> \<open>\<^verbatim>\<open>range(n)\<close>\<close>
  "range1 n = [0..n - 1]"

function range3 :: "int \<Rightarrow> int \<Rightarrow> int \<Rightarrow> int list" where
  \<comment> \<open>\<^verbatim>\<open>range(a, b, step)\<close> for a positive step, the only kind the script
      passes (\<open>grid_spacing \<ge> 4\<close>)\<close>
  "range3 a b step = (if step \<le> 0 \<or> b \<le> a then [] else a # range3 (a + step) b step)"
  by pat_completeness auto
termination
  by (relation "measure (\<lambda>(a, b, step). nat (b - a))") auto

subsection \<open>The icon renderer\<close>

definition padding :: "int \<Rightarrow> int" where
  "padding sz = py_int (fmul (float_of_int sz) (float_lit (1 / 10)))"

definition icon_size :: "int \<Rightarrow> int" where
  "icon_size sz = sz - padding sz * 2"

definition center :: "int \<Rightarrow> int" where
  "center sz = sz div 2"

definition radius :: "int \<Rightarrow> int" where
  "radius sz = icon_size sz div 2"

definition dist :: "int \<Rightarrow> point \<Rightarrow> rat" where
  \<comment> \<open>\<^verbatim>\<open>math.sqrt((x - center)**2 + (y - center)**2)\<close>\<close>
  "dist sz p =
     fsqrt (float_of_int ((fst p - center sz) ^ 2 + (snd p - center sz) ^ 2))"

definition gradient_colour :: "rat \<Rightarrow> rgba" where
  "gradient_colour ratio =
     (py_int (fadd (float_of_int 100) (fmul (float_of_int (138 - 100)) ratio)),
      py_int (fadd (float_of_int 150) (fmul (float_of_int (43 - 150)) ratio)),
      py_int (fsub (float_of_int 255) (fmul (float_of_int 60) ratio)),
      255)"

definition gradient_pixel :: "int \<Rightarrow> int \<Rightarrow> int \<Rightarrow> rgba image \<Rightarrow> error + rgba image" where
  \<comment> \<open>the body of the two nested loops\<close>
  "gradient_pixel sz y x img =
     (let d = dist sz (x, y)
      in if d \<le> of_int (radius sz)
         then bindE (fdiv d (float_of_int (radius sz)))
                (\<lambda>ratio. putpixel img (x, y) (gradient_colour ratio))
         else Inr img)"

definition gradient :: "int \<Rightarrow> rgba image \<Rightarrow> error + rgba image" where
  "gradient sz img =
     foldE (\<lambda>y. foldE (gradient_pixel sz y) (range1 sz)) (range1 sz) img"

definition grid_color :: rgba where
  "grid_color = (255, 255, 255, 30)"

definition grid_spacing :: "int \<Rightarrow> int" where
  "grid_spacing sz = max 4 (sz div 16)"

definition grid_step :: "raster \<Rightarrow> int \<Rightarrow> int \<Rightarrow> rgba image \<Rightarrow> rgba image" where
  \<comment> \<open>one vertical and one horizontal line\<close>
  "grid_step R sz i img =
     draw_line R
       (draw_line R img (i, padding sz) (i, sz - padding sz) grid_color 1)
       (padding sz, i) (sz - padding sz, i) grid_color 1"

definition grid :: "raster \<Rightarrow> int \<Rightarrow> rgba image \<Rightarrow> rgba image" where
  "grid R sz img =
     fold (grid_step R sz) (range3 (padding sz) (sz - padding sz) (grid_spacing sz)) img"

definition v_color :: rgba where
  "v_color = (255, 255, 255, 255)"

definition v_thickness :: "int \<Rightarrow> int" where
  "v_thickness sz = max 2 (sz div 12)"

definition v_top_y :: "int \<Rightarrow> int" where
  "v_top_y sz = py_int (fmul (float_of_int sz) (float_lit (25 / 100)))"

definition v_bottom_y :: "int \<Rightarrow> int" where
  "v_bottom_y sz = py_int (fmul (float_of_int sz) (float_lit (75 / 100)))"

definition v_left_x :: "int \<Rightarrow> int" where
  "v_left_x sz = py_int (fmul (float_of_int sz) (float_lit (35 / 100)))"

definition v_right_x :: "int \<Rightarrow> int" where
  "v_right_x sz = py_int (fmul (float_of_int sz) (float_lit (65 / 100)))"

definition v_center_x :: "int \<Rightarrow> int" where
  "v_center_x sz = sz div 2"

definition v_strokes :: "raster \<Rightarrow> int \<Rightarrow> rgba \<Rightarrow> int \<Rightarrow> rgba image \<Rightarrow> rgba image" where
  \<comment> \<open>the left stroke, then the right stroke\<close>
  "v_strokes R sz fill w img =
     draw_line R
       (draw_line R img (v_left_x sz, v_top_y sz) (v_center_x sz, v_bottom_y sz) fill w)
       (v_right_x sz, v_top_y sz) (v_center_x sz, v_bottom_y sz) fill w"

definition glow_color :: rgba where
  "glow_color = (100, 200, 255, 100)"

definition glow_thickness :: "int \<Rightarrow> int" where
  "glow_thickness sz = v_thickness sz + 4"

definition corner_radius :: "int \<Rightarrow> int" where
  "corner_radius sz = sz div 8"

definition after_gradient :: "int \<Rightarrow> error + rgba image" where
  \<comment> \<open>lines 24 to 46: the transparent image and the circular gradient\<close>
  "after_gradient sz = bindE (Image_new (sz, sz) (0, 0, 0, 0)) (gradient sz)"

definition before_mask :: "raster \<Rightarrow> int \<Rightarrow> error + rgba image" where
  \<comment> \<open>lines 24 to 83: gradient, grid, glyph and glow\<close>
  "before_mask R sz =
     bindE (after_gradient sz)
       (\<lambda>img. Inr (v_strokes R sz glow_color (glow_thickness sz)
                     (v_strokes R sz v_color (v_thickness sz)
                       (grid R sz img))))"

definition rounded_mask :: "raster \<Rightarrow> int \<Rightarrow> error + int image" where
  \<comment> \<open>lines 86 to 89\<close>
  "rounded_mask R sz =
     bindE (Image_new (sz, sz) 0)
       (\<lambda>msk. Inr (draw_rounded_rectangle R msk (0, 0, sz, sz) (corner_radius sz) 255))"

definition create_voxmatrix_icon :: "raster \<Rightarrow> int \<Rightarrow> error + rgba image" where
  "create_voxmatrix_icon R sz =
     bindE (before_mask R sz)
       (\<lambda>img. bindE (rounded_mask R sz) (\<lambda>msk. putalpha img msk))"

text \<open>
  The regions the drawing steps cover, and the colour the last of them leaves on a pixel.
  Later steps overwrite earlier ones: gradient, grid, glyph, glow.
\<close>

definition in_image :: "int \<Rightarrow> point \<Rightarrow> bool" where
  "in_image sz p \<longleftrightarrow> 0 \<le> fst p \<and> fst p < sz \<and> 0 \<le> snd p \<and> snd p < sz"

definition in_circle :: "int \<Rightarrow> point \<Rightarrow> bool" where
  "in_circle sz p \<longleftrightarrow> dist sz p \<le> of_int (radius sz)"

definition on_grid :: "raster \<Rightarrow> int \<Rightarrow> point \<Rightarrow> bool" where
  "on_grid R sz p \<longleftrightarrow>
     list_ex (\<lambda>i. line_px R (i, padding sz) (i, sz - padding sz) 1 p
                 \<or> line_px R (padding sz, i) (sz - padding sz, i) 1 p)
       (range3 (padding sz) (sz - padding sz) (grid_spacing sz))"

definition on_v :: "raster \<Rightarrow> int \<Rightarrow> int \<Rightarrow> point \<Rightarrow> bool" where
  "on_v R sz w p \<longleftrightarrow>
     line_px R (v_left_x sz, v_top_y sz) (v_center_x sz, v_bottom_y sz) w p
     \<or> line_px R (v_right_x sz, v_top_y sz) (v_center_x sz, v_bottom_y sz) w p"

definition on_glyph :: "raster \<Rightarrow> int \<Rightarrow> point \<Rightarrow> bool" where
  "on_glyph R sz p \<longleftrightarrow> on_v R sz (v_thickness sz) p"

definition on_glow :: "raster \<Rightarrow> int \<Rightarrow> point \<Rightarrow> bool" where
  "on_glow R sz p \<longleftrightarrow> on_v R sz (glow_thickness sz) p"

definition in_rounded_rectangle :: "raster \<Rightarrow> int \<Rightarrow> point \<Rightarrow> bool" where
  "in_rounded_rectangle R sz p \<longleftrightarrow>
     rounded_rectangle_px R (0, 0, sz, sz) (corner_radius sz) p"

definition ratio_at :: "int \<Rightarrow> point \<Rightarrow> rat" where
  \<comment> \<open>\<^verbatim>\<open>dist / radius\<close> where the radius is not zero\<close>
  "ratio_at sz p = fl (dist sz p / float_of_int (radius sz))"

definition painted :: "raster \<Rightarrow> int \<Rightarrow> point \<Rightarrow> rgba" where
  "painted R sz p =
     (if on_glow R sz p then glow_color
      else if on_glyph R sz p then v_color
      else if on_grid R sz p then grid_color
      else if in_circle sz p then gradient_colour (ratio_at sz p)
      else (0, 0, 0, 0))"

definition final_pixel :: "raster \<Rightarrow> int \<Rightarrow> point \<Rightarrow> rgba" where
  \<comment> \<open>the painted colour with the mask's value as alpha\<close>
  "final_pixel R sz p =
     (case painted R sz p of (r, g, b, a) \<Rightarrow>
        (r, g, b, if in_rounded_rectangle R sz p then 255 else 0))"

definition drawn :: "raster \<Rightarrow> int \<Rightarrow> rgba image" where
  \<comment> \<open>the image before the mask is applied, in closed form\<close>
  "drawn R sz =
     \<lparr>width = sz, height = sz,
      pix = (\<lambda>p. if in_image sz p then painted R sz p else (0, 0, 0, 0))\<rparr>"

definition rendered :: "raster \<Rightarrow> int \<Rightarrow> rgba image" where
  \<comment> \<open>the returned image, in closed form\<close>
  "rendered R sz =
     \<lparr>width = sz, height = sz,
      pix = (\<lambda>p. if in_image sz p then final_pixel R sz p else (0, 0, 0, 0))\<rparr>"

definition pixel_at :: "error + 'p image \<Rightarrow> point \<Rightarrow> error + 'p" where
  "pixel_at res p = bindE res (\<lambda>img. Inr (pix img p))"

subsection \<open>The batch driver\<close>

text \<open>
  The driver's effects are kept in a record of the directories that exist, the files that
  were written (path to format and image) and the lines printed. A failing filesystem call
  would end the run with an uncaught exception; the filesystem is taken to accept every
  call.
\<close>

record fs =
  dirs :: "string set"
  files :: "string \<rightharpoonup> string \<times> rgba image"
  stdout :: "string list"

definition ICON_SIZES :: "(string \<times> int) list" where
  "ICON_SIZES =
     [(''mdpi'', 48), (''hdpi'', 72), (''xhdpi'', 96), (''xxhdpi'', 144), (''xxxhdpi'', 192)]"

definition path_join :: "string \<Rightarrow> string \<Rightarrow> string" where
  \<comment> \<open>\<^verbatim>\<open>os.path.join\<close> of two components on a POSIX system\<close>
  "path_join a b =
     (if b \<noteq> [] \<and> hd b = CHR ''/'' then b
      else if a = [] \<or> last a = CHR ''/'' then a @ b
      else a @ ''/'' @ b)"

primrec ancestors :: "string \<Rightarrow> string \<Rightarrow> string list" where
  \<comment> \<open>the directory itself and every prefix that ends before a separator\<close>
  "ancestors pre [] = [pre]"
| "ancestors pre (c # cs) =
     (if c = CHR ''/'' \<and> pre \<noteq> [] then pre # ancestors (pre @ [c]) cs
      else ancestors (pre @ [c]) cs)"

definition makedirs :: "fs \<Rightarrow> string \<Rightarrow> fs" where
  \<comment> \<open>\<^verbatim>\<open>os.makedirs(path, exist_ok=True)\<close>\<close>
  "makedirs s path = s\<lparr>dirs := dirs s \<union> set (ancestors [] path)\<rparr>"

definition save :: "fs \<Rightarrow> rgba image \<Rightarrow> string \<Rightarrow> string \<Rightarrow> fs" where
  \<comment> \<open>\<^verbatim>\<open>icon.save(path, format)\<close>\<close>
  "save s icon path format = s\<lparr>files := (files s)(path \<mapsto> (format, icon))\<rparr>"

definition print :: "fs \<Rightarrow> string \<Rightarrow> fs" where
  "print s line = s\<lparr>stdout := stdout s @ [line]\<rparr>"

fun str_nat :: "nat \<Rightarrow> string" where
  "str_nat n = (if n < 10 then [char_of (48 + n)]
                else str_nat (n div 10) @ [char_of (48 + n mod 10)])"

declare str_nat.simps [simp del]

definition str_int :: "int \<Rightarrow> string" where
  "str_int i = (if i < 0 then ''-'' @ str_nat (nat (- i)) else str_nat (nat i))"

definition base_path :: string where
  "base_path = ''/home/xaf/Desktop/VoxMatrix/app/android/app/src/main/res''"

definition mipmap_path :: "string \<Rightarrow> string" where
  "mipmap_path folder = path_join base_path (''mipmap-'' @ folder)"

definition output_path :: "string \<Rightarrow> string" where
  "output_path folder = path_join (mipmap_path folder) ''ic_launcher.png''"

definition icon_step :: "raster \<Rightarrow> string \<times> int \<Rightarrow> fs \<Rightarrow> error + fs" where
  \<comment> \<open>the body of the loop over \<^verbatim>\<open>ICON_SIZES.items()\<close>\<close>
  "icon_step R entry s =
     (case entry of (folder, sz) \<Rightarrow>
        bindE (create_voxmatrix_icon R sz)
          (\<lambda>icon.
             let s1 = makedirs s (mipmap_path folder);
                 s2 = save s1 icon (output_path folder) ''PNG''
             in Inr (print s2 (''Created '' @ folder @ '' icon ('' @ str_int sz @ ''x''
                       @ str_int sz @ ''): '' @ output_path folder))))"

definition main :: "raster \<Rightarrow> fs \<Rightarrow> error + fs" where
  "main R s =
     bindE (foldE (icon_step R) ICON_SIZES (print s ''Generating VoxMatrix app icons...''))
       (\<lambda>s'. Inr (print (print s' (CHR 0x0A # ''Icon generation complete!''))
                    ''Icons saved to: app/android/app/src/main/res/mipmap-*/''))"

subsection \<open>A reference rasteriser\<close>

text \<open>
  For evaluation at concrete pixels the rasteriser parameter is instantiated with plain
  geometry: a line of width \<open>w\<close> covers the pixels within \<open>w / 2\<close> of the segment, a
  rounded rectangle covers the pixels of its box that lie within \<open>r\<close> of the box shrunk by
  \<open>r\<close>. Pillow may differ from it on the rim of a shape; the pixels evaluated below are not
  on a rim.
\<close>

definition seg_dist2 :: "point \<Rightarrow> point \<Rightarrow> point \<Rightarrow> rat" where
  \<comment> \<open>squared distance from \<open>p\<close> to the segment from \<open>a\<close> to \<open>b\<close>\<close>
  "seg_dist2 a b p =
     (let dx = fst b - fst a; dy = snd b - snd a;
          ex = fst p - fst a; ey = snd p - snd a;
          l2 = dx * dx + dy * dy;
          t = ex * dx + ey * dy
      in if l2 = 0 \<or> t \<le> 0 then of_int (ex * ex + ey * ey)
         else if l2 \<le> t
           then of_int ((fst p - fst b) * (fst p - fst b) + (snd p - snd b) * (snd p - snd b))
         else of_int ((ex * dy - ey * dx) * (ex * dy - ey * dx)) / of_int l2)"

definition geometric :: raster where
  "geometric =
     \<lparr>line_px = (\<lambda>a b w p. 4 * seg_dist2 a b p \<le> of_int (max w 1 * max w 1)),
      rounded_rectangle_px = (\<lambda>box r p.
         case box of (x0, y0, x1, y1) \<Rightarrow>
           x0 \<le> fst p \<and> fst p \<le> x1 \<and> y0 \<le> snd p \<and> snd p \<le> y1 \<and>
           (let cx = max (x0 + r) (min (x1 - r) (fst p));
                cy = max (y0 + r) (min (y1 - r) (snd p))
            in (fst p - cx) * (fst p - cx) + (snd p - cy) * (snd p - cy) \<le> r * r))\<rparr>"

section \<open>Properties of the model\<close>

subsection \<open>Rounding is monotone and exact on floats\<close>

lemma rne_of_int: "rne (of_int n) = n"
  by (simp add: rne_def)

lemma rne_floor: "\<lfloor>y\<rfloor> \<le> rne y \<and> rne y \<le> \<lfloor>y\<rfloor> + 1"
  by (simp add: rne_def Let_def)

lemma rne_err: "\<bar>of_int (rne y) - y\<bar> \<le> 1 / 2"
proof -
  have "of_int \<lfloor>y\<rfloor> \<le> y" "y < of_int \<lfloor>y\<rfloor> + 1"
    by linarith+
  then show ?thesis
    by (auto simp: rne_def Let_def abs_le_iff)
qed

lemma rne_mono:
  assumes "x \<le> y"
  shows "rne x \<le> rne y"
proof (cases "\<lfloor>x\<rfloor> = \<lfloor>y\<rfloor>")
  case True
  with assms show ?thesis
    by (auto simp: rne_def Let_def)
next
  case False
  with assms have "\<lfloor>x\<rfloor> + 1 \<le> \<lfloor>y\<rfloor>"
    using floor_mono [of x y] by linarith
  with rne_floor [of x] rne_floor [of y] show ?thesis
    by linarith
qed

lemma rne_minus: "rne (- y) = - rne y"
proof (cases "y = of_int \<lfloor>y\<rfloor>")
  case True
  then obtain n where "y = of_int n" ..
  then have "rne (- y) = rne (of_int (- n))" "rne y = n"
    by (simp_all add: rne_of_int)
  then show ?thesis
    by (simp only: rne_of_int)
next
  case False
  then have lt: "of_int \<lfloor>y\<rfloor> < y"
    by (metis of_int_floor_le order_le_less)
  have "y < of_int \<lfloor>y\<rfloor> + 1"
    by linarith
  with lt have fm: "\<lfloor>- y\<rfloor> = - \<lfloor>y\<rfloor> - 1"
    by (intro floor_unique) auto
  show ?thesis
    unfolding rne_def Let_def fm using lt by auto
qed

lemma powi_diff_nat: "(2::rat) powi (int a - int b) = 2 ^ a / 2 ^ b"
  by (simp add: power_int_diff)

lemma expo_bounds:
  assumes "x \<noteq> 0"
  shows "2 powi expo x \<le> \<bar>x\<bar>" and "\<bar>x\<bar> < 2 powi (expo x + 1)"
proof -
  obtain p q where pq: "quotient_of \<bar>x\<bar> = (p, q)"
    by force
  have q: "0 < q"
    using pq by (rule quotient_of_denom_pos)
  have x: "\<bar>x\<bar> = of_int p / of_int q"
    using pq by (rule quotient_of_div)
  have p: "0 < p"
  proof (rule ccontr)
    assume "\<not> 0 < p"
    then have "(of_int p :: rat) / of_int q \<le> 0"
      using q by (simp add: divide_le_0_iff)
    with x assms show False
      by simp
  qed
  define bp where "bp = floorlog 2 (nat p)"
  define bq where "bq = floorlog 2 (nat q)"
  define d where "d = int bp - int bq"
  have bp: "2 ^ (bp - 1) \<le> nat p" "nat p < 2 ^ bp"
    using floorlog_bounds [of "nat p" 2] p by (simp_all add: bp_def)
  have bq: "2 ^ (bq - 1) \<le> nat q" "nat q < 2 ^ bq"
    using floorlog_bounds [of "nat q" 2] q by (simp_all add: bq_def)
  have bp1: "1 \<le> bp" and bq1: "1 \<le> bq"
    using p q by (simp_all add: bp_def bq_def floorlog_def)
  have pr: "(2::rat) ^ (bp - 1) \<le> of_int p" "(of_int p :: rat) < 2 ^ bp"
  proof -
    have "int (2 ^ (bp - 1)) \<le> p" "p < int (2 ^ bp)"
      using bp p by linarith+
    then have "(of_int (int (2 ^ (bp - 1))) :: rat) \<le> of_int p"
      "(of_int p :: rat) < of_int (int (2 ^ bp))"
      by (simp_all only: of_int_le_iff of_int_less_iff)
    then show "(2::rat) ^ (bp - 1) \<le> of_int p" "(of_int p :: rat) < 2 ^ bp"
      by simp_all
  qed
  have qr: "(2::rat) ^ (bq - 1) \<le> of_int q" "(of_int q :: rat) < 2 ^ bq"
  proof -
    have "int (2 ^ (bq - 1)) \<le> q" "q < int (2 ^ bq)"
      using bq q by linarith+
    then have "(of_int (int (2 ^ (bq - 1))) :: rat) \<le> of_int q"
      "(of_int q :: rat) < of_int (int (2 ^ bq))"
      by (simp_all only: of_int_le_iff of_int_less_iff)
    then show "(2::rat) ^ (bq - 1) \<le> of_int q" "(of_int q :: rat) < 2 ^ bq"
      by simp_all
  qed
  have qpos: "(0::rat) < of_int q" and ppos: "(0::rat) < of_int p"
    using p q by simp_all
  have up: "\<bar>x\<bar> < 2 powi (d + 1)"
  proof -
    have "(2::rat) powi (d + 1) = 2 ^ bp / 2 ^ (bq - 1)"
    proof -
      have "d + 1 = int bp - int (bq - 1)"
        using bq1 by (simp add: d_def)
      then show ?thesis
        by (simp only: powi_diff_nat)
    qed
    moreover have "of_int p / of_int q < (2::rat) ^ bp / 2 ^ (bq - 1)"
      using pr(2) qr(1) qpos ppos by (intro frac_less) simp_all
    ultimately show ?thesis
      by (simp add: x)
  qed
  have lo: "2 powi (d - 1) \<le> \<bar>x\<bar>"
  proof -
    have "(2::rat) powi (d - 1) = 2 ^ (bp - 1) / 2 ^ bq"
    proof -
      have "d - 1 = int (bp - 1) - int bq"
        using bp1 by (simp add: d_def)
      then show ?thesis
        by (simp only: powi_diff_nat)
    qed
    moreover have "(2::rat) ^ (bp - 1) / 2 ^ bq \<le> of_int p / of_int q"
      using pr(1) qr(2) qpos ppos by (intro frac_le) simp_all
    ultimately show ?thesis
      by (simp add: x)
  qed
  have e: "expo x = (if 2 powi d \<le> \<bar>x\<bar> then d else d - 1)"
    by (simp add: expo_def pq bp_def bq_def d_def Let_def bitlen_def)
  show "2 powi expo x \<le> \<bar>x\<bar>"
    using lo by (simp add: e)
  show "\<bar>x\<bar> < 2 powi (expo x + 1)"
    using up by (simp add: e)
qed

lemma expo_unique:
  assumes "2 powi e \<le> \<bar>x\<bar>" and "\<bar>x\<bar> < 2 powi (e + 1)"
  shows "expo x = e"
proof -
  have "x \<noteq> 0"
  proof
    assume "x = 0"
    with assms(1) have "(2::rat) powi e \<le> 0"
      by simp
    moreover have "(0::rat) < 2 powi e"
      by simp
    ultimately show False
      by linarith
  qed
  note b = expo_bounds [OF this]
  have "(2::rat) powi e < 2 powi (expo x + 1)"
    using assms(1) b(2) by linarith
  then have 1: "e < expo x + 1"
    by (metis linorder_not_le one_less_numeral_iff order.asym power_int_increasing
        semiring_norm(76) order_le_less)
  have "(2::rat) powi expo x < 2 powi (e + 1)"
    using assms(2) b(1) by linarith
  then have 2: "expo x < e + 1"
    by (metis linorder_not_le one_less_numeral_iff order.asym power_int_increasing
        semiring_norm(76) order_le_less)
  from 1 2 show ?thesis
    by linarith
qed

lemma powi_less_cancel: "(2::rat) powi a < 2 powi b \<Longrightarrow> a < b"
  by (metis linorder_not_le one_less_numeral_iff order.asym power_int_increasing
      semiring_norm(76) order_le_less)

lemma expo_minus: "expo (- x) = expo x"
  by (simp add: expo_def)

lemma expo_mono:
  assumes "0 < x" and "x \<le> y"
  shows "expo x \<le> expo y"
proof -
  have "2 powi expo x \<le> \<bar>x\<bar>" "\<bar>y\<bar> < 2 powi (expo y + 1)"
    using assms expo_bounds [of x] expo_bounds [of y] by auto
  with assms have "(2::rat) powi expo x < 2 powi (expo y + 1)"
    by linarith
  then show ?thesis
    using powi_less_cancel by fastforce
qed

lemma ulp_split: "(2::rat) powi e = 2 ^ 52 * 2 powi (e - 52)"
proof -
  have "(2::rat) powi (52 + (e - 52)) = 2 powi 52 * 2 powi (e - 52)"
    by (rule power_int_add) simp
  then show ?thesis
    by simp
qed

lemma ulp_split': "(2::rat) powi (e + 1) = 2 ^ 53 * 2 powi (e - 52)"
proof -
  have "(2::rat) powi (53 + (e - 52)) = 2 powi 53 * 2 powi (e - 52)"
    by (rule power_int_add) simp
  then show ?thesis
    by (simp add: add.commute)
qed

lemma fl_0: "fl 0 = 0"
  by (simp add: fl_def)

lemma fl_minus: "fl (- x) = - fl x"
  by (simp add: fl_def expo_minus rne_minus Let_def)

lemma fl_pos_bounds:
  assumes "0 < x"
  shows "2 powi expo x \<le> fl x" and "fl x \<le> 2 powi (expo x + 1)"
proof -
  define s :: rat where "s = 2 powi (expo x - 52)"
  have s: "0 < s"
    by (simp add: s_def)
  have e1: "(2::rat) powi expo x = 2 ^ 52 * s"
    unfolding s_def by (rule ulp_split)
  have e2: "(2::rat) powi (expo x + 1) = 2 ^ 53 * s"
    unfolding s_def by (rule ulp_split')
  have "2 powi expo x \<le> \<bar>x\<bar>" "\<bar>x\<bar> < 2 powi (expo x + 1)"
    using expo_bounds [of x] assms by auto
  then have b: "2 ^ 52 * s \<le> x" "x < 2 ^ 53 * s"
    using assms unfolding e1 e2 by simp_all
  have q: "of_int (2 ^ 52) \<le> x / s" "x / s \<le> of_int (2 ^ 53)"
    using b s by (simp_all add: pos_le_divide_eq pos_divide_le_eq)
  have "rne (of_int (2 ^ 52)) \<le> rne (x / s)" "rne (x / s) \<le> rne (of_int (2 ^ 53))"
    by (rule rne_mono [OF q(1)], rule rne_mono [OF q(2)])
  then have "2 ^ 52 \<le> rne (x / s)" "rne (x / s) \<le> 2 ^ 53"
    by (simp_all only: rne_of_int)
  then have "(of_int (2 ^ 52) :: rat) \<le> of_int (rne (x / s))"
    "(of_int (rne (x / s)) :: rat) \<le> of_int (2 ^ 53)"
    by (simp_all only: of_int_le_iff)
  then have "2 ^ 52 * s \<le> of_int (rne (x / s)) * s" "of_int (rne (x / s)) * s \<le> 2 ^ 53 * s"
    using s by (simp_all add: mult_le_cancel_right)
  moreover have "fl x = of_int (rne (x / s)) * s"
    using assms by (simp add: fl_def s_def Let_def)
  ultimately show "2 powi expo x \<le> fl x" and "fl x \<le> 2 powi (expo x + 1)"
    unfolding e1 e2 by simp_all
qed

lemma fl_nonneg: "0 \<le> x \<Longrightarrow> 0 \<le> fl x"
proof (cases "x = 0")
  case True
  then show ?thesis
    by (simp add: fl_0)
next
  case False
  assume "0 \<le> x"
  with False have "0 < x"
    by simp
  from fl_pos_bounds(1) [OF this] show ?thesis
    using zero_less_power_int [of "2::rat" "expo x"] by linarith
qed

lemma fl_mono_pos:
  assumes "0 < x" and "x \<le> y"
  shows "fl x \<le> fl y"
proof (cases "expo x = expo y")
  case True
  define s :: rat where "s = 2 powi (expo x - 52)"
  have s: "0 < s"
    by (simp add: s_def)
  have "x / s \<le> y / s"
    using assms s by (simp add: divide_right_mono)
  then have "rne (x / s) \<le> rne (y / s)"
    by (rule rne_mono)
  then have "(of_int (rne (x / s)) :: rat) * s \<le> of_int (rne (y / s)) * s"
    using s by (simp add: mult_le_cancel_right)
  then show ?thesis
    using assms True by (simp add: fl_def s_def Let_def)
next
  case False
  with expo_mono [OF assms] have "expo x + 1 \<le> expo y"
    by linarith
  then have "(2::rat) powi (expo x + 1) \<le> 2 powi expo y"
    by (intro power_int_increasing) simp_all
  moreover have "0 < y"
    using assms by linarith
  ultimately show ?thesis
    using fl_pos_bounds(2) [OF assms(1)] fl_pos_bounds(1) [of y] by linarith
qed

lemma fl_mono:
  assumes "x \<le> y"
  shows "fl x \<le> fl y"
proof -
  consider "0 < x" | "x \<le> 0" "0 \<le> y" | "y < 0"
    using assms by linarith
  then show ?thesis
  proof cases
    case 1
    then show ?thesis
      using assms by (rule fl_mono_pos)
  next
    case 2
    then have "0 \<le> fl (- x)" "0 \<le> fl y"
      by (simp_all add: fl_nonneg)
    then show ?thesis
      by (simp add: fl_minus)
  next
    case 3
    then have "0 < - y" "- y \<le> - x"
      using assms by simp_all
    then have "fl (- y) \<le> fl (- x)"
      by (rule fl_mono_pos)
    then show ?thesis
      by (simp add: fl_minus)
  qed
qed

lemma fl_err: "\<bar>fl x - x\<bar> \<le> \<bar>x\<bar> / 2 ^ 53"
proof (cases "x = 0")
  case True
  then show ?thesis
    by (simp add: fl_0)
next
  case False
  define s :: rat where "s = 2 powi (expo x - 52)"
  have s: "0 < s"
    by (simp add: s_def)
  have f: "fl x = of_int (rne (x / s)) * s"
    using False by (simp add: fl_def s_def Let_def)
  have "fl x - x = (of_int (rne (x / s)) - x / s) * s"
    using s by (simp add: f field_simps)
  then have "\<bar>fl x - x\<bar> = \<bar>of_int (rne (x / s)) - x / s\<bar> * s"
    using s by (simp add: abs_mult)
  also have "\<dots> \<le> 1 / 2 * s"
    using rne_err [of "x / s"] s by (intro mult_right_mono) simp_all
  also have "\<dots> = 2 ^ 52 * s / 2 ^ 53"
    by simp
  also have "\<dots> \<le> \<bar>x\<bar> / 2 ^ 53"
  proof -
    have "(2::rat) powi expo x = 2 ^ 52 * s"
      unfolding s_def by (rule ulp_split)
    with expo_bounds(1) [OF False] have "2 ^ 52 * s \<le> \<bar>x\<bar>"
      by simp
    then show ?thesis
      by (intro divide_right_mono) simp_all
  qed
  finally show ?thesis .
qed

lemma powi_shift: "(2::rat) powi (a + int n) = 2 ^ n * 2 powi a"
  by (simp add: power_int_add)

lemma fl_grid:
  assumes "x \<noteq> 0" and "x = of_int k * 2 powi (expo x - 52)"
  shows "fl x = x"
proof -
  define s :: rat where "s = 2 powi (expo x - 52)"
  have s: "s \<noteq> 0"
    by (simp add: s_def)
  have "x = of_int k * s"
    using assms(2) unfolding s_def .
  then have "x / s = of_int k"
    using s by simp
  then have "rne (x / s) = k"
    by (simp only: rne_of_int)
  then show ?thesis
    using assms by (simp add: fl_def Let_def s_def)
qed

lemma fl_exact:
  assumes "2 ^ 52 \<le> \<bar>m\<bar>" and "\<bar>m\<bar> \<le> 2 ^ 53"
  shows "fl (of_int m * 2 powi j) = of_int m * 2 powi j"
proof -
  define x :: rat where "x = of_int m * 2 powi j"
  have ax: "\<bar>x\<bar> = of_int \<bar>m\<bar> * 2 powi j"
    by (simp add: x_def abs_mult)
  have x0: "x \<noteq> 0"
    using assms(1) by (auto simp: x_def)
  have p52: "(2::rat) powi (j + 52) = 2 ^ 52 * 2 powi j"
    using powi_shift [of j 52] by simp
  have p53: "(2::rat) powi (j + 52 + 1) = 2 ^ 53 * 2 powi j"
  proof -
    have "j + 52 + 1 = j + int 53"
      by simp
    then show ?thesis
      by (simp only: powi_shift)
  qed
  have p54: "(2::rat) powi (j + 53 + 1) = 2 ^ 54 * 2 powi j"
  proof -
    have "j + 53 + 1 = j + int 54"
      by simp
    then show ?thesis
      by (simp only: powi_shift)
  qed
  have p53': "(2::rat) powi (j + 53) = 2 ^ 53 * 2 powi j"
    using powi_shift [of j 53] by (simp only: of_nat_numeral)
  have pj: "(2::rat) powi (j + 1) = 2 * 2 powi j"
    using powi_shift [of j 1] by simp
  have lo: "2 powi (j + 52) \<le> \<bar>x\<bar>"
  proof -
    have "(of_int (2 ^ 52) :: rat) \<le> of_int \<bar>m\<bar>"
      using assms(1) by (simp only: of_int_le_iff)
    then have "(2::rat) ^ 52 * 2 powi j \<le> of_int \<bar>m\<bar> * 2 powi j"
      by (intro mult_right_mono) simp_all
    then show ?thesis
      by (simp only: p52 ax)
  qed
  show ?thesis
  proof (cases "\<bar>m\<bar> < 2 ^ 53")
    case True
    then have "(of_int \<bar>m\<bar> :: rat) < of_int (2 ^ 53)"
      by (simp only: of_int_less_iff)
    then have "of_int \<bar>m\<bar> * 2 powi j < (2::rat) ^ 53 * 2 powi j"
      by (intro mult_strict_right_mono) simp_all
    then have "\<bar>x\<bar> < 2 powi (j + 52 + 1)"
      by (simp only: p53 ax)
    with lo have "expo x = j + 52"
      by (rule expo_unique)
    then have "x = of_int m * 2 powi (expo x - 52)"
      by (simp add: x_def)
    with x0 have "fl x = x"
      by (rule fl_grid)
    then show ?thesis
      by (simp only: x_def)
  next
    case False
    with assms(2) have m: "\<bar>m\<bar> = 2 ^ 53"
      by linarith
    then have ax': "\<bar>x\<bar> = 2 ^ 53 * 2 powi j"
      by (simp add: ax)
    have "2 powi (j + 53) \<le> \<bar>x\<bar>" "\<bar>x\<bar> < 2 powi (j + 53 + 1)"
      unfolding p54 p53' ax' by simp_all
    then have e: "expo x = j + 53"
      by (rule expo_unique)
    have "m = 2 ^ 53 \<or> m = - (2 ^ 53)"
      using m by linarith
    then have "m = 2 * (m div 2)"
      by (elim disjE) simp_all
    then have "(of_int m :: rat) = 2 * of_int (m div 2)"
      by (metis of_int_mult of_int_numeral)
    then have xe: "x = of_int (m div 2) * 2 powi (j + 1)"
      by (simp add: x_def pj)
    have "expo x - 52 = j + 1"
      by (simp add: e)
    then have "x = of_int (m div 2) * 2 powi (expo x - 52)"
      by (simp only: xe [symmetric])
    with x0 have "fl x = x"
      by (rule fl_grid)
    then show ?thesis
      by (simp only: x_def)
  qed
qed

lemma fl_of_int:
  assumes "\<bar>n\<bar> \<le> 2 ^ 53"
  shows "fl (of_int n) = of_int n"
proof (cases "n = 0")
  case True
  then show ?thesis
    by (simp add: fl_0)
next
  case False
  define x :: rat where "x = of_int n"
  define e where "e = expo x"
  have x0: "x \<noteq> 0"
    using False by (simp add: x_def)
  have ax: "\<bar>x\<bar> = of_int \<bar>n\<bar>"
    by (simp add: x_def)
  have "(of_int \<bar>n\<bar> :: rat) \<le> of_int (2 ^ 53)"
    using assms by (simp only: of_int_le_iff)
  then have le: "\<bar>x\<bar> \<le> 2 ^ 53"
    by (simp add: ax)
  have lo: "2 powi e \<le> \<bar>x\<bar>"
    unfolding e_def using x0 by (rule expo_bounds)
  show ?thesis
  proof (cases "e \<le> 52")
    case True
    define k where "k = n * 2 ^ nat (52 - e)"
    have "(2::rat) powi (52 - e) * 2 powi (e - 52) = 2 powi (52 - e + (e - 52))"
      by (rule power_int_add [symmetric]) simp
    then have "(2::rat) ^ nat (52 - e) * 2 powi (e - 52) = 1"
      using True by (simp add: power_int_nonneg_exp)
    then have "of_int k * 2 powi (e - 52) = x"
      by (simp add: k_def x_def mult.assoc)
    then have "x = of_int k * 2 powi (expo x - 52)"
      by (simp add: e_def)
    with x0 have "fl x = x"
      by (rule fl_grid)
    then show ?thesis
      by (simp only: x_def)
  next
    case False
    then have "(2::rat) powi 53 \<le> 2 powi e"
      by (intro power_int_increasing) simp_all
    with lo le have "\<bar>x\<bar> = 2 ^ 53"
      by simp
    then have "(of_int \<bar>n\<bar> :: rat) = of_int (2 ^ 53)"
      by (simp add: ax)
    then have "\<bar>n\<bar> = 2 ^ 53"
      by (simp only: of_int_eq_iff)
    then have "fl (of_int n * 2 powi 0) = of_int n * 2 powi 0"
      by (intro fl_exact) simp_all
    then show ?thesis
      by simp
  qed
qed






subsection \<open>Floats of the renderer\<close>

lemma fl_int_const: "\<bar>n\<bar> \<le> 2 ^ 53 \<Longrightarrow> float_of_int n = of_int n"
  by (simp add: float_of_int_def fl_of_int)

lemma fl_1: "fl 1 = 1"
  using fl_of_int [of 1] by simp

lemma fl_upper:
  assumes "0 \<le> x"
  shows "fl x \<le> x * (1 + 1 / 2 ^ 53)"
proof -
  have "fl x - x \<le> \<bar>fl x - x\<bar>"
    by simp
  also have "\<dots> \<le> \<bar>x\<bar> / 2 ^ 53"
    by (rule fl_err)
  finally show ?thesis
    using assms by (simp add: algebra_simps)
qed

lemma float_lit_tenth: "float_lit (1 / 10) = 3602879701896397 / 36028797018963968"
  by code_simp

lemma padding_bounds:
  assumes "0 \<le> sz"
  shows "0 \<le> padding sz" and "8 * padding sz \<le> sz"
proof -
  define s :: rat where "s = of_int sz"
  define a where "a = float_of_int sz"
  define c :: rat where "c = 3602879701896397 / 36028797018963968"
  define e :: rat where "e = 1 + 1 / 2 ^ 53"
  have s: "0 \<le> s"
    using assms by (simp add: s_def)
  have a0: "0 \<le> a"
    unfolding a_def float_of_int_def using assms by (intro fl_nonneg) simp
  have a1: "a \<le> s * e"
    unfolding a_def float_of_int_def e_def s_def using assms by (intro fl_upper) simp
  have c0: "0 \<le> c"
    by (simp add: c_def)
  have p0: "0 \<le> a * c"
    using a0 c0 by simp
  have f0: "0 \<le> fl (a * c)"
    using p0 by (rule fl_nonneg)
  have "fl (a * c) \<le> a * c * e"
    unfolding e_def using p0 by (rule fl_upper)
  also have "\<dots> \<le> s * e * c * e"
    using a1 c0 by (intro mult_right_mono) (simp_all add: e_def)
  also have "\<dots> = s * (e * c * e)"
    by simp
  also have "\<dots> \<le> s * (1 / 8)"
    using s by (intro mult_left_mono) (simp_all add: e_def c_def)
  finally have f1: "fl (a * c) \<le> s / 8"
    by simp
  have pad: "padding sz = \<lfloor>fl (a * c)\<rfloor>"
    using f0 by (simp add: padding_def py_int_def fmul_def a_def c_def float_lit_tenth)
  show "0 \<le> padding sz"
    using f0 by (simp add: pad)
  have "of_int (padding sz) \<le> fl (a * c)"
    by (simp add: pad)
  with f1 have "of_int (padding sz) * 8 \<le> s"
    by simp
  then have "(of_int (8 * padding sz) :: rat) \<le> of_int sz"
    by (simp add: s_def mult.commute)
  then show "8 * padding sz \<le> sz"
    by (simp only: of_int_le_iff)
qed

lemma radius_pos:
  assumes "1 < sz"
  shows "0 < radius sz"
proof -
  have "8 * padding sz \<le> sz"
    using assms by (intro padding_bounds) simp
  with assms have "2 \<le> icon_size sz"
    by (simp add: icon_size_def)
  then show ?thesis
    by (simp add: radius_def)
qed

lemma float_radius_pos:
  assumes "0 < radius sz"
  shows "1 \<le> float_of_int (radius sz)"
proof -
  have "fl 1 \<le> fl (of_int (radius sz))"
    using assms by (intro fl_mono) simp
  then show ?thesis
    by (simp add: fl_1 float_of_int_def)
qed



lemma fl_ge:
  assumes "of_int a \<le> x" and "\<bar>a\<bar> \<le> 2 ^ 53"
  shows "of_int a \<le> fl x"
proof -
  have "fl (of_int a) \<le> fl x"
    using assms(1) by (rule fl_mono)
  then show ?thesis
    using assms(2) by (simp add: fl_of_int)
qed




subsection \<open>The gradient loops\<close>

lemma pix_update_cong:
  assumes "\<And>p. f p = g p"
  shows "img\<lparr>pix := f\<rparr> = img\<lparr>pix := g\<rparr>"
proof -
  have "f = g"
    using assms by (rule ext)
  then show ?thesis
    by simp
qed

lemma gradient_pixel_eq:
  assumes "0 < radius sz" and "inside img (x, y)"
  shows "gradient_pixel sz y x img =
    Inr (if in_circle sz (x, y)
         then img\<lparr>pix := (pix img)((x, y) := gradient_colour (ratio_at sz (x, y)))\<rparr>
         else img)"
proof -
  have "float_of_int (radius sz) \<noteq> 0"
    using float_radius_pos [OF assms(1)] by simp
  then show ?thesis
    using assms(2)
    by (simp add: gradient_pixel_def Let_def in_circle_def fdiv_def bindE_def putpixel_def
        ratio_at_def)
qed

lemma gradient_row:
  assumes "0 < radius sz" and "0 \<le> y" and "y < height img"
    and "\<forall>x\<in>set xs. 0 \<le> x \<and> x < width img"
  shows "foldE (gradient_pixel sz y) xs img =
    Inr (img\<lparr>pix := (\<lambda>p. if snd p = y \<and> fst p \<in> set xs \<and> in_circle sz p
                        then gradient_colour (ratio_at sz p) else pix img p)\<rparr>)"
  using assms(3,4)
proof (induction xs arbitrary: img)
  case Nil
  then show ?case
    by simp
next
  case (Cons x xs)
  define img1 where "img1 = (if in_circle sz (x, y)
         then img\<lparr>pix := (pix img)((x, y) := gradient_colour (ratio_at sz (x, y)))\<rparr>
         else img)"
  have "inside img (x, y)"
    using Cons.prems assms(2) by (simp add: inside_def)
  then have step: "gradient_pixel sz y x img = Inr img1"
    unfolding img1_def using assms(1) by (intro gradient_pixel_eq)
  have wh: "width img1 = width img" "height img1 = height img"
    by (simp_all add: img1_def)
  have "foldE (gradient_pixel sz y) xs img1 =
    Inr (img1\<lparr>pix := (\<lambda>p. if snd p = y \<and> fst p \<in> set xs \<and> in_circle sz p
                        then gradient_colour (ratio_at sz p) else pix img1 p)\<rparr>)"
    using Cons.prems by (intro Cons.IH) (simp_all add: wh)
  moreover have "img1\<lparr>pix := (\<lambda>p. if snd p = y \<and> fst p \<in> set xs \<and> in_circle sz p
                        then gradient_colour (ratio_at sz p) else pix img1 p)\<rparr> =
    img\<lparr>pix := (\<lambda>p. if snd p = y \<and> fst p \<in> set (x # xs) \<and> in_circle sz p
                        then gradient_colour (ratio_at sz p) else pix img p)\<rparr>"
    unfolding img1_def by (cases "in_circle sz (x, y)") (auto intro!: pix_update_cong)
  ultimately show ?case
    by (simp add: step)
qed

lemma gradient_rows:
  assumes "0 < radius sz" and "\<forall>y\<in>set ys. 0 \<le> y \<and> y < height img"
    and "\<forall>x\<in>set xs. 0 \<le> x \<and> x < width img"
  shows "foldE (\<lambda>y. foldE (gradient_pixel sz y) xs) ys img =
    Inr (img\<lparr>pix := (\<lambda>p. if snd p \<in> set ys \<and> fst p \<in> set xs \<and> in_circle sz p
                        then gradient_colour (ratio_at sz p) else pix img p)\<rparr>)"
  using assms(2,3)
proof (induction ys arbitrary: img)
  case Nil
  then show ?case
    by simp
next
  case (Cons y ys)
  define img1 where "img1 = img\<lparr>pix := (\<lambda>p. if snd p = y \<and> fst p \<in> set xs \<and> in_circle sz p
                        then gradient_colour (ratio_at sz p) else pix img p)\<rparr>"
  have step: "foldE (gradient_pixel sz y) xs img = Inr img1"
    unfolding img1_def using assms(1) Cons.prems by (intro gradient_row) simp_all
  have wh: "width img1 = width img" "height img1 = height img"
    by (simp_all add: img1_def)
  have "foldE (\<lambda>y. foldE (gradient_pixel sz y) xs) ys img1 =
    Inr (img1\<lparr>pix := (\<lambda>p. if snd p \<in> set ys \<and> fst p \<in> set xs \<and> in_circle sz p
                        then gradient_colour (ratio_at sz p) else pix img1 p)\<rparr>)"
    using Cons.prems by (intro Cons.IH) (simp_all add: wh)
  moreover have "img1\<lparr>pix := (\<lambda>p. if snd p \<in> set ys \<and> fst p \<in> set xs \<and> in_circle sz p
                        then gradient_colour (ratio_at sz p) else pix img1 p)\<rparr> =
    img\<lparr>pix := (\<lambda>p. if snd p \<in> set (y # ys) \<and> fst p \<in> set xs \<and> in_circle sz p
                        then gradient_colour (ratio_at sz p) else pix img p)\<rparr>"
    unfolding img1_def by (auto intro!: pix_update_cong)
  ultimately show ?case
    by (simp add: step)
qed

lemma set_range1: "set (range1 n) = {0..n - 1}"
  by (simp add: range1_def)

lemma after_gradient_eq:
  assumes "1 < sz"
  shows "after_gradient sz =
    Inr \<lparr>width = sz, height = sz,
         pix = (\<lambda>p. if in_image sz p \<and> in_circle sz p
                     then gradient_colour (ratio_at sz p) else (0, 0, 0, 0))\<rparr>"
proof -
  define img0 :: "rgba image" where "img0 = \<lparr>width = sz, height = sz, pix = (\<lambda>_. (0, 0, 0, 0))\<rparr>"
  have new: "Image_new (sz, sz) (0, 0, 0, 0) = Inr img0"
    using assms by (simp add: Image_new_def img0_def)
  have "foldE (\<lambda>y. foldE (gradient_pixel sz y) (range1 sz)) (range1 sz) img0 =
    Inr (img0\<lparr>pix := (\<lambda>p. if snd p \<in> set (range1 sz) \<and> fst p \<in> set (range1 sz) \<and> in_circle sz p
                        then gradient_colour (ratio_at sz p) else pix img0 p)\<rparr>)"
    using radius_pos [OF assms] by (intro gradient_rows) (auto simp: set_range1 img0_def)
  moreover have "img0\<lparr>pix := (\<lambda>p. if snd p \<in> set (range1 sz) \<and> fst p \<in> set (range1 sz) \<and> in_circle sz p
                        then gradient_colour (ratio_at sz p) else pix img0 p)\<rparr> =
    \<lparr>width = sz, height = sz,
         pix = (\<lambda>p. if in_image sz p \<and> in_circle sz p
                     then gradient_colour (ratio_at sz p) else (0, 0, 0, 0))\<rparr>"
    by (auto simp: img0_def set_range1 in_image_def fun_eq_iff)
  ultimately show ?thesis
    by (simp add: after_gradient_def new bindE_def gradient_def)
qed

subsection \<open>Grid, glyph, glow and mask\<close>

lemma draw_line_simps:
  "width (draw_line R img a b c w) = width img"
  "height (draw_line R img a b c w) = height img"
  "pix (draw_line R img a b c w) p = (if inside img p \<and> line_px R a b w p then c else pix img p)"
  "inside (draw_line R img a b c w) p = inside img p"
  by (simp_all add: draw_line_def inside_def)

lemma grid_step_simps:
  "width (grid_step R sz i img) = width img"
  "height (grid_step R sz i img) = height img"
  "inside (grid_step R sz i img) p = inside img p"
  "pix (grid_step R sz i img) p =
     (if inside img p \<and> (line_px R (i, padding sz) (i, sz - padding sz) 1 p
                          \<or> line_px R (padding sz, i) (sz - padding sz, i) 1 p)
      then grid_color else pix img p)"
  by (auto simp: grid_step_def draw_line_simps)

lemma fold_grid_step:
  "width (fold (grid_step R sz) xs img) = width img
   \<and> height (fold (grid_step R sz) xs img) = height img
   \<and> pix (fold (grid_step R sz) xs img) p =
     (if inside img p \<and> list_ex (\<lambda>i. line_px R (i, padding sz) (i, sz - padding sz) 1 p
                          \<or> line_px R (padding sz, i) (sz - padding sz, i) 1 p) xs
      then grid_color else pix img p)"
proof (induction xs arbitrary: img)
  case Nil
  then show ?case
    by simp
next
  case (Cons x xs)
  show ?case
    using Cons.IH [of "grid_step R sz x img"] by (auto simp: grid_step_simps)
qed

lemma grid_simps:
  "width (grid R sz img) = width img"
  "height (grid R sz img) = height img"
  "pix (grid R sz img) p = (if inside img p \<and> on_grid R sz p then grid_color else pix img p)"
  using fold_grid_step [of R sz _ img p] by (simp_all add: grid_def on_grid_def)

lemma v_strokes_simps:
  "width (v_strokes R sz c w img) = width img"
  "height (v_strokes R sz c w img) = height img"
  "pix (v_strokes R sz c w img) p = (if inside img p \<and> on_v R sz w p then c else pix img p)"
  by (auto simp: v_strokes_def draw_line_simps on_v_def)

lemma before_mask_eq:
  assumes "1 < sz"
  shows "before_mask R sz = Inr (drawn R sz)"
proof -
  define img0 :: "rgba image" where "img0 = \<lparr>width = sz, height = sz,
         pix = (\<lambda>p. if in_image sz p \<and> in_circle sz p
                     then gradient_colour (ratio_at sz p) else (0, 0, 0, 0))\<rparr>"
  define img3 where "img3 = v_strokes R sz glow_color (glow_thickness sz)
                     (v_strokes R sz v_color (v_thickness sz) (grid R sz img0))"
  have ins: "inside img0 p = in_image sz p" for p
    by (simp add: inside_def in_image_def img0_def)
  have ins1: "inside (grid R sz img0) p = in_image sz p" for p
    by (simp add: inside_def grid_simps) (simp add: in_image_def img0_def)
  have ins2: "inside (v_strokes R sz v_color (v_thickness sz) (grid R sz img0)) p = in_image sz p"
    for p
    by (simp add: inside_def v_strokes_simps grid_simps) (simp add: in_image_def img0_def)
  have "width img3 = sz" "height img3 = sz"
    by (simp_all add: img3_def v_strokes_simps grid_simps img0_def)
  moreover have "pix img3 = (\<lambda>p. if in_image sz p then painted R sz p else (0, 0, 0, 0))"
    by (rule ext)
      (simp add: img3_def v_strokes_simps grid_simps ins ins1 ins2 painted_def on_glow_def
        on_glyph_def, simp add: img0_def)
  ultimately have "img3 = drawn R sz"
    by (cases img3) (simp add: drawn_def)
  then show ?thesis
    by (simp add: before_mask_def after_gradient_eq [OF assms] bindE_def img0_def img3_def)
qed

lemma rounded_mask_eq:
  assumes "0 \<le> sz"
  shows "rounded_mask R sz =
    Inr \<lparr>width = sz, height = sz,
         pix = (\<lambda>p. if in_image sz p \<and> in_rounded_rectangle R sz p then 255 else 0)\<rparr>"
  using assms
  by (simp add: rounded_mask_def Image_new_def bindE_def draw_rounded_rectangle_def inside_def
      in_image_def in_rounded_rectangle_def cong: if_cong)

lemma create_eq:
  assumes "1 < sz"
  shows "create_voxmatrix_icon R sz = Inr (rendered R sz)"
proof -
  have "0 \<le> sz"
    using assms by simp
  then show ?thesis
    by (simp add: create_voxmatrix_icon_def before_mask_eq [OF assms] rounded_mask_eq bindE_def
        putalpha_def final_pixel_def rendered_def drawn_def fun_eq_iff split: prod.splits)
qed

subsection \<open>The border\<close>

lemma padding_div_10:
  assumes "0 < sz" and "sz < 2 ^ 50"
  shows "padding sz = sz div 10"
proof -
  define k where "k = sz div 10"
  define s :: rat where "s = of_int sz"
  define c :: rat where "c = 3602879701896397 / 36028797018963968"
  define x where "x = s * c"
  have k0: "0 \<le> k" and k1: "k < 2 ^ 47" and km: "10 * k \<le> sz" "sz \<le> 10 * k + 9"
    using assms by (simp_all add: k_def)
  have s0: "0 < s" and s1: "s < 2 ^ 50"
    using assms by (simp_all add: s_def)
  have sk: "10 * of_int k \<le> s" "s \<le> 10 * of_int k + 9"
  proof -
    have "(of_int (10 * k) :: rat) \<le> of_int sz" "(of_int sz :: rat) \<le> of_int (10 * k + 9)"
      using km by (simp_all only: of_int_le_iff)
    then show "10 * of_int k \<le> s" "s \<le> 10 * of_int k + 9"
      by (simp_all add: s_def)
  qed
  have kr: "(of_int k :: rat) \<le> 2 ^ 47 - 1"
  proof -
    have "k \<le> 2 ^ 47 - 1"
      using k1 by simp
    then have "(of_int k :: rat) \<le> of_int (2 ^ 47 - 1)"
      by (simp only: of_int_le_iff)
    then show ?thesis
      by simp
  qed
  have xs: "x = s / 10 + s / 180143985094819840"
    by (simp add: x_def c_def)
  have x0: "0 \<le> x"
    using s0 by (simp add: x_def c_def)
  have lo: "of_int k \<le> x"
    using sk(1) s0 by (simp add: xs)
  have hi: "x \<le> of_int k + 145 / 160"
    using sk(2) s1 by (simp add: xs)
  have a: "float_of_int sz = s"
    unfolding s_def using assms by (intro fl_int_const) simp
  have f0: "of_int k \<le> fl x"
    using lo k0 k1 by (intro fl_ge) simp_all
  have "fl x \<le> x * (1 + 1 / 2 ^ 53)"
    using x0 by (rule fl_upper)
  also have "\<dots> = x + x / 2 ^ 53"
    by (simp add: algebra_simps)
  also have "\<dots> \<le> x + 2 ^ 47 / 2 ^ 53"
    using hi kr by (intro add_left_mono divide_right_mono) simp_all
  also have "\<dots> < of_int k + 1"
    using hi by simp
  finally have f1: "fl x < of_int k + 1" .
  have "\<lfloor>fl x\<rfloor> = k"
    using f0 f1 by (intro floor_unique)
  moreover have "0 \<le> fl x"
    using x0 by (rule fl_nonneg)
  ultimately show ?thesis
    by (simp add: padding_def py_int_def fmul_def a float_lit_tenth x_def c_def k_def)
qed

subsection \<open>The smallest icon\<close>


lemma padding_0: "padding 0 = 0"
  by code_simp


subsection \<open>The batch driver\<close>

lemma str_int_sizes:
  "str_int 48 = ''48''" "str_int 72 = ''72''" "str_int 96 = ''96''"
  "str_int 144 = ''144''" "str_int 192 = ''192''"
  by code_simp+

lemma ancestors_self: "pre @ cs \<in> set (ancestors pre cs)"
proof (induction cs arbitrary: pre)
  case Nil
  then show ?case
    by simp
next
  case (Cons c cs)
  have "(pre @ [c]) @ cs \<in> set (ancestors (pre @ [c]) cs)"
    by (rule Cons.IH)
  then show ?case
    by (cases "c = CHR ''/'' \<and> pre \<noteq> []") auto
qed

lemma fs_effects:
  "files (print s l) = files s" "dirs (print s l) = dirs s" "stdout (print s l) = stdout s @ [l]"
  "files (save s i p f) = (files s)(p \<mapsto> (f, i))" "dirs (save s i p f) = dirs s"
  "stdout (save s i p f) = stdout s"
  "files (makedirs s d) = files s" "dirs (makedirs s d) = dirs s \<union> set (ancestors [] d)"
  "stdout (makedirs s d) = stdout s"
  by (simp_all add: print_def save_def makedirs_def)

lemma icon_step_eq:
  assumes "1 < sz"
  shows "icon_step R (folder, sz) s =
    Inr (print (save (makedirs s (mipmap_path folder)) (rendered R sz) (output_path folder) ''PNG'')
           (''Created '' @ folder @ '' icon ('' @ str_int sz @ ''x'' @ str_int sz @ ''): ''
              @ output_path folder))"
  by (simp add: icon_step_def create_eq [OF assms] bindE_def)

lemma paths:
  "output_path ''mdpi'' =
     ''/home/xaf/Desktop/VoxMatrix/app/android/app/src/main/res/mipmap-mdpi/ic_launcher.png''"
  "output_path ''hdpi'' =
     ''/home/xaf/Desktop/VoxMatrix/app/android/app/src/main/res/mipmap-hdpi/ic_launcher.png''"
  "output_path ''xhdpi'' =
     ''/home/xaf/Desktop/VoxMatrix/app/android/app/src/main/res/mipmap-xhdpi/ic_launcher.png''"
  "output_path ''xxhdpi'' =
     ''/home/xaf/Desktop/VoxMatrix/app/android/app/src/main/res/mipmap-xxhdpi/ic_launcher.png''"
  "output_path ''xxxhdpi'' =
     ''/home/xaf/Desktop/VoxMatrix/app/android/app/src/main/res/mipmap-xxxhdpi/ic_launcher.png''"
  by (simp_all add: output_path_def mipmap_path_def path_join_def base_path_def)

lemma main_eq:
  "main R s =
     Inr (print (print
       (print (save (makedirs
       (print (save (makedirs
       (print (save (makedirs
       (print (save (makedirs
       (print (save (makedirs
       (print s ''Generating VoxMatrix app icons...'')
         (mipmap_path ''mdpi'')) (rendered R 48) (output_path ''mdpi'') ''PNG'')
         (''Created mdpi icon (48x48): '' @ output_path ''mdpi''))
         (mipmap_path ''hdpi'')) (rendered R 72) (output_path ''hdpi'') ''PNG'')
         (''Created hdpi icon (72x72): '' @ output_path ''hdpi''))
         (mipmap_path ''xhdpi'')) (rendered R 96) (output_path ''xhdpi'') ''PNG'')
         (''Created xhdpi icon (96x96): '' @ output_path ''xhdpi''))
         (mipmap_path ''xxhdpi'')) (rendered R 144) (output_path ''xxhdpi'') ''PNG'')
         (''Created xxhdpi icon (144x144): '' @ output_path ''xxhdpi''))
         (mipmap_path ''xxxhdpi'')) (rendered R 192) (output_path ''xxxhdpi'') ''PNG'')
         (''Created xxxhdpi icon (192x192): '' @ output_path ''xxxhdpi''))
       (CHR 0x0A # ''Icon generation complete!''))
       ''Icons saved to: app/android/app/src/main/res/mipmap-*/'')"
  by (simp add: main_def ICON_SIZES_def icon_step_eq str_int_sizes bindE_def)

subsection \<open>Pixels of the 48-pixel icon under the reference rasteriser\<close>



lemma in_circle_34_30: "in_circle 48 (34, 30)"
  by code_simp


lemma final_pixel_alpha:
  "alpha (final_pixel R sz p) = (if in_rounded_rectangle R sz p then 255 else 0)"
  by (simp add: final_pixel_def alpha_def split: prod.splits)

lemma final_pixel_rgb: "rgb (final_pixel R sz p) = rgb (painted R sz p)"
  by (simp add: final_pixel_def rgb_def split: prod.splits)

lemma pixel_at_create:
  assumes "1 < sz" and "in_image sz p"
  shows "pixel_at (create_voxmatrix_icon R sz) p = Inr (final_pixel R sz p)"
  using assms(2) by (simp add: pixel_at_def create_eq [OF assms(1)] bindE_def rendered_def)

lemma pixel_at_before_mask:
  assumes "1 < sz" and "in_image sz p"
  shows "pixel_at (before_mask R sz) p = Inr (painted R sz p)"
  using assms(2) by (simp add: pixel_at_def before_mask_eq [OF assms(1)] bindE_def drawn_def)

lemma pixel_at_rounded_mask:
  assumes "0 \<le> sz" and "in_image sz p"
  shows "pixel_at (rounded_mask R sz) p = Inr (if in_rounded_rectangle R sz p then 255 else 0)"
  using assms(2) by (simp add: pixel_at_def rounded_mask_eq [OF assms(1)] bindE_def)

section \<open>The claims\<close>

text \<open>
  C1, as amended. For every size above 1, applying the mask gives each pixel the mask's value
  at that position as its alpha, whatever the alpha was before, and keeps its colour
  channels: \<^verbatim>\<open>putalpha\<close> replaces the alpha band, it does not take a minimum.
\<close>

theorem mask_replaces_alpha:
  assumes "1 < sz" and "in_image sz p"
  shows "\<exists>pre msk img.
    before_mask R sz = Inr pre \<and> rounded_mask R sz = Inr msk
    \<and> create_voxmatrix_icon R sz = Inr img
    \<and> alpha (pix img p) = pix msk p
    \<and> rgb (pix img p) = rgb (pix pre p)"
proof -
  have "0 \<le> sz"
    using assms(1) by simp
  note m = rounded_mask_eq [OF this, of R]
  show ?thesis
    unfolding before_mask_eq [OF assms(1)] create_eq [OF assms(1)] m
    using assms(2)
    by (simp add: rendered_def drawn_def final_pixel_alpha final_pixel_rgb)
qed

text \<open>The theorem at size 48 and the pixel (24, 1), with the reference rasteriser.\<close>

theorem mask_replaces_alpha_witness:
  "1 < (48::int) \<and> in_image 48 (24, 1)
   \<and> (\<exists>pre msk img.
    before_mask geometric 48 = Inr pre \<and> rounded_mask geometric 48 = Inr msk
    \<and> create_voxmatrix_icon geometric 48 = Inr img
    \<and> alpha (pix img (24, 1)) = pix msk (24, 1)
    \<and> rgb (pix img (24, 1)) = rgb (pix pre (24, 1)))"
proof -
  have a: "1 < (48::int)"
    by simp
  have b: "in_image 48 (24, 1)"
    by (simp add: in_image_def)
  from mask_replaces_alpha [OF a b, of geometric] a b show ?thesis
    by blast
qed

text \<open>
  The claim as stated fails: at size 48 the pixel (24, 1) is transparent before the mask
  is applied (nothing was drawn there), the mask is 255 there, and the returned pixel is
  opaque, not transparent.
\<close>

theorem mask_minimum_counterexample:
  "pixel_at (before_mask geometric 48) (24, 1) = Inr (0, 0, 0, 0)
   \<and> pixel_at (rounded_mask geometric 48) (24, 1) = Inr 255
   \<and> pixel_at (create_voxmatrix_icon geometric 48) (24, 1) = Inr (0, 0, 0, 255)"
proof -
  have a: "1 < (48::int)" "0 \<le> (48::int)"
    by simp_all
  have b: "in_image 48 (24, 1)"
    by (simp add: in_image_def)
  have p: "painted geometric 48 (24, 1) = (0, 0, 0, 0)"
    by code_simp
  have r: "in_rounded_rectangle geometric 48 (24, 1)"
    by code_simp
  show ?thesis
    by (simp add: pixel_at_before_mask [OF a(1) b] pixel_at_rounded_mask [OF a(2) b]
        pixel_at_create [OF a(1) b] p r final_pixel_def)
qed

text \<open>
  C2, as amended. For every size above 1 and every pixel whose distance from the centre is
  at most the radius, the alpha is 255 right after the gradient step. The grid, glyph and
  glow steps then replace every pixel they cover by their own colour, alpha included, so
  before the mask is applied the alpha is 100 under a glow stroke, else 255 under a glyph
  stroke, else 30 under a grid line, and 255 only where none of them covers the pixel.
\<close>

theorem alpha_before_mask:
  assumes "1 < sz" and "in_image sz p" and "in_circle sz p"
  shows "\<exists>g img.
    after_gradient sz = Inr g \<and> alpha (pix g p) = 255
    \<and> before_mask R sz = Inr img
    \<and> alpha (pix img p) =
        (if on_glow R sz p then 100 else if on_glyph R sz p then 255
         else if on_grid R sz p then 30 else 255)"
  unfolding after_gradient_eq [OF assms(1)] before_mask_eq [OF assms(1)]
  using assms(2,3)
  by (simp add: drawn_def painted_def alpha_def gradient_colour_def glow_color_def v_color_def
      grid_color_def)

text \<open>The theorem at size 48 and the pixel (34, 30), with the reference rasteriser.\<close>

theorem alpha_before_mask_witness:
  "1 < (48::int) \<and> in_image 48 (34, 30) \<and> in_circle 48 (34, 30)
   \<and> (\<exists>g img.
    after_gradient 48 = Inr g \<and> alpha (pix g (34, 30)) = 255
    \<and> before_mask geometric 48 = Inr img
    \<and> alpha (pix img (34, 30)) =
        (if on_glow geometric 48 (34, 30) then 100 else if on_glyph geometric 48 (34, 30) then 255
         else if on_grid geometric 48 (34, 30) then 30 else 255))"
proof -
  have a: "1 < (48::int)"
    by simp
  have b: "in_image 48 (34, 30)"
    by (simp add: in_image_def)
  from alpha_before_mask [OF a b in_circle_34_30, of geometric] a b in_circle_34_30
  show ?thesis
    by blast
qed

text \<open>
  The claim as stated fails: at size 48 the pixel (8, 20) lies within the radius, on the
  grid line \<open>x = 8\<close> and under no stroke, and its alpha before the mask is 30.
\<close>

theorem alpha_before_mask_counterexample:
  "in_circle 48 (8, 20)
   \<and> pixel_at (before_mask geometric 48) (8, 20) = Inr (255, 255, 255, 30)"
proof -
  have a: "1 < (48::int)"
    by simp
  have b: "in_image 48 (8, 20)"
    by (simp add: in_image_def)
  have c: "in_circle 48 (8, 20)"
    by code_simp
  have p: "painted geometric 48 (8, 20) = (255, 255, 255, 30)"
    by code_simp
  show ?thesis
    by (simp add: pixel_at_before_mask [OF a b] p c)
qed



text \<open>
  C4, as amended. For every positive size the border is \<open>padding = int(size * 0.1)\<close>, the
  float product truncated towards zero and not rounded to the nearest integer; for every
  positive size below \<open>2 ^ 50\<close> that is \<open>size // 10\<close> (4 for size 48, 9 for size 96).
\<close>

theorem padding_truncates:
  assumes "0 < sz" and "sz < 2 ^ 50"
  shows "padding sz = py_int (fmul (float_of_int sz) (float_lit (1 / 10)))
    \<and> fmul (float_of_int sz) (float_lit (1 / 10)) - 1 < of_int (padding sz)
    \<and> of_int (padding sz) \<le> fmul (float_of_int sz) (float_lit (1 / 10))
    \<and> padding sz = sz div 10"
proof -
  define x where "x = fmul (float_of_int sz) (float_lit (1 / 10))"
  have "0 \<le> float_of_int sz"
    unfolding float_of_int_def using assms(1) by (intro fl_nonneg) simp
  then have "0 \<le> x"
    unfolding x_def fmul_def by (intro fl_nonneg) (simp add: float_lit_tenth)
  then have "padding sz = \<lfloor>x\<rfloor>"
    by (simp add: padding_def py_int_def x_def)
  then have "x - 1 < of_int (padding sz)" "of_int (padding sz) \<le> x"
    by linarith+
  then show ?thesis
    using padding_div_10 [OF assms] by (simp add: x_def padding_def)
qed

text \<open>The theorem at size 48.\<close>

theorem padding_truncates_witness:
  "0 < (48::int) \<and> (48::int) < 2 ^ 50
   \<and> padding 48 = py_int (fmul (float_of_int 48) (float_lit (1 / 10)))
   \<and> fmul (float_of_int 48) (float_lit (1 / 10)) - 1 < of_int (padding 48)
   \<and> of_int (padding 48) \<le> fmul (float_of_int 48) (float_lit (1 / 10))
   \<and> padding 48 = 48 div 10"
proof -
  have a: "0 < (48::int)" and b: "(48::int) < 2 ^ 50"
    by simp_all
  from padding_truncates [OF a b] a b show ?thesis
    by blast
qed

text \<open>
  The claim as stated fails: \<open>48 * 0.1\<close> is the float 4.800000000000001, which rounds to 5
  and truncates to 4; the border of the 48-pixel icon is 4 and that of the 96-pixel icon
  is 9.
\<close>

theorem padding_round_counterexample:
  "py_round (fmul (float_of_int 48) (float_lit (1 / 10))) = 5 \<and> padding 48 = 4
   \<and> py_round (fmul (float_of_int 96) (float_lit (1 / 10))) = 10 \<and> padding 96 = 9"
  by code_simp








text \<open>
  C8. The batch driver walks the size table in insertion order over exactly the five
  entries mdpi 48, hdpi 72, xhdpi 96, xxhdpi 144, xxxhdpi 192; for each entry it renders the
  icon of that size, creates the directory \<open>base_path/mipmap-label\<close> with its missing
  parents, and writes the image, of those dimensions, as PNG to
  \<open>base_path/mipmap-label/ic_launcher.png\<close>.
\<close>

theorem main_writes_icons:
  "\<exists>s'. main R s = Inr s'
    \<and> ICON_SIZES =
        [(''mdpi'', 48), (''hdpi'', 72), (''xhdpi'', 96), (''xxhdpi'', 144), (''xxxhdpi'', 192)]
    \<and> files s' = (files s)
        (output_path ''mdpi'' \<mapsto> (''PNG'', rendered R 48),
         output_path ''hdpi'' \<mapsto> (''PNG'', rendered R 72),
         output_path ''xhdpi'' \<mapsto> (''PNG'', rendered R 96),
         output_path ''xxhdpi'' \<mapsto> (''PNG'', rendered R 144),
         output_path ''xxxhdpi'' \<mapsto> (''PNG'', rendered R 192))
    \<and> create_voxmatrix_icon R 48 = Inr (rendered R 48)
    \<and> create_voxmatrix_icon R 72 = Inr (rendered R 72)
    \<and> create_voxmatrix_icon R 96 = Inr (rendered R 96)
    \<and> create_voxmatrix_icon R 144 = Inr (rendered R 144)
    \<and> create_voxmatrix_icon R 192 = Inr (rendered R 192)
    \<and> map (\<lambda>sz. (width (rendered R sz), height (rendered R sz))) [48, 72, 96, 144, 192] =
        [(48, 48), (72, 72), (96, 96), (144, 144), (192, 192)]
    \<and> map output_path [''mdpi'', ''hdpi'', ''xhdpi'', ''xxhdpi'', ''xxxhdpi''] =
        [''/home/xaf/Desktop/VoxMatrix/app/android/app/src/main/res/mipmap-mdpi/ic_launcher.png'',
         ''/home/xaf/Desktop/VoxMatrix/app/android/app/src/main/res/mipmap-hdpi/ic_launcher.png'',
         ''/home/xaf/Desktop/VoxMatrix/app/android/app/src/main/res/mipmap-xhdpi/ic_launcher.png'',
         ''/home/xaf/Desktop/VoxMatrix/app/android/app/src/main/res/mipmap-xxhdpi/ic_launcher.png'',
         ''/home/xaf/Desktop/VoxMatrix/app/android/app/src/main/res/mipmap-xxxhdpi/ic_launcher.png'']
    \<and> dirs s' = dirs s
        \<union> set (ancestors [] (mipmap_path ''mdpi'')) \<union> set (ancestors [] (mipmap_path ''hdpi''))
        \<union> set (ancestors [] (mipmap_path ''xhdpi'')) \<union> set (ancestors [] (mipmap_path ''xxhdpi''))
        \<union> set (ancestors [] (mipmap_path ''xxxhdpi''))
    \<and> set (map mipmap_path [''mdpi'', ''hdpi'', ''xhdpi'', ''xxhdpi'', ''xxxhdpi'']) \<subseteq> dirs s'
    \<and> stdout s' = stdout s @
        [''Generating VoxMatrix app icons...'',
         ''Created mdpi icon (48x48): '' @ output_path ''mdpi'',
         ''Created hdpi icon (72x72): '' @ output_path ''hdpi'',
         ''Created xhdpi icon (96x96): '' @ output_path ''xhdpi'',
         ''Created xxhdpi icon (144x144): '' @ output_path ''xxhdpi'',
         ''Created xxxhdpi icon (192x192): '' @ output_path ''xxxhdpi'',
         CHR 0x0A # ''Icon generation complete!'',
         ''Icons saved to: app/android/app/src/main/res/mipmap-*/'']"
proof -
  have m: "mipmap_path f \<in> set (ancestors [] (mipmap_path f))" for f
    using ancestors_self [of "[]" "mipmap_path f"] by simp
  have c: "create_voxmatrix_icon R 48 = Inr (rendered R 48)"
    "create_voxmatrix_icon R 72 = Inr (rendered R 72)"
    "create_voxmatrix_icon R 96 = Inr (rendered R 96)"
    "create_voxmatrix_icon R 144 = Inr (rendered R 144)"
    "create_voxmatrix_icon R 192 = Inr (rendered R 192)"
    by (simp_all add: create_eq)
  have w: "map (\<lambda>sz. (width (rendered R sz), height (rendered R sz))) [48, 72, 96, 144, 192] =
        [(48, 48), (72, 72), (96, 96), (144, 144), (192, 192)]"
    by (simp add: rendered_def)
  have p: "map output_path [''mdpi'', ''hdpi'', ''xhdpi'', ''xxhdpi'', ''xxxhdpi''] =
        [''/home/xaf/Desktop/VoxMatrix/app/android/app/src/main/res/mipmap-mdpi/ic_launcher.png'',
         ''/home/xaf/Desktop/VoxMatrix/app/android/app/src/main/res/mipmap-hdpi/ic_launcher.png'',
         ''/home/xaf/Desktop/VoxMatrix/app/android/app/src/main/res/mipmap-xhdpi/ic_launcher.png'',
         ''/home/xaf/Desktop/VoxMatrix/app/android/app/src/main/res/mipmap-xxhdpi/ic_launcher.png'',
         ''/home/xaf/Desktop/VoxMatrix/app/android/app/src/main/res/mipmap-xxxhdpi/ic_launcher.png'']"
    by (simp only: list.map paths)
  show ?thesis
    unfolding main_eq
    by (simp add: c w p ICON_SIZES_def fs_effects m del: list.map)
qed





end
